theory Spec2Isabelle
  imports Complex_Main "HOL-Library.Multiset"
begin

section \<open>BioClusterQuant: nearest-neighbour-distance metrics\<close>

text \<open>
  A shallow embedding of \<^verbatim>\<open>BioClusterQuant.py\<close>: the function
  \<^verbatim>\<open>calculate_nnd_metrics_for_cell\<close> (lines 43-74) and the per-file loop of
  \<^verbatim>\<open>process_folder_gui\<close> (lines 117-198).

  Conventions of the model.
  \<^item> A coordinate read from a file is a finite float64, which is a real number. The
    values the program computes from coordinates are float64 values that are never
    negative: a finite one, rounded to nearest with ties to even, or \<open>+inf\<close> after an
    overflow (type \<open>f64\<close>). NaN is \<open>None\<close> of \<open>f64 option\<close>. The sign of zero is not
    modelled.
  \<^item> An exception is a value of \<open>exn\<close>; a computation that may raise returns
    \<open>exn + 'a\<close>, with \<open>Inl\<close> for the raise.
  \<^item> The calls into scikit-learn, numpy and pandas are not code of the repository. The
    neighbour search is a parameter of the functions that use it, and
    \<open>NearestNeighbors_kneighbors\<close> below is the instance the program runs; a data
    frame is the record of what the program reads from it.
\<close>

subsection \<open>Constants (lines 31-40)\<close>

definition X_COL :: string where
  "X_COL = ''X''"

definition Y_COL :: string where
  "Y_COL = ''Y''"

definition LABEL_COL_INPUT :: string where
  "LABEL_COL_INPUT = ''Label''"

subsection \<open>Data\<close>

type_synonym point = "real \<times> real"

datatype exn = KeyError | ValueError | IndexError | EmptyDataError | OtherException

text \<open>
  One row of a data frame, seen through the three columns the program reads. A field is
  meaningful only when its column is among \<open>df_columns\<close>.
\<close>

record row =
  row_x :: real
  row_y :: real
  row_label :: string

record dataframe =
  df_columns :: "string list"
  df_rows :: "row list"

text \<open>\<^verbatim>\<open>df.empty\<close>: one of the two axes has length 0.\<close>

definition df_empty :: "dataframe \<Rightarrow> bool" where
  "df_empty df = (df_columns df = [] \<or> df_rows df = [])"

text \<open>
  Line 49, \<^verbatim>\<open>df_cell_foci[[X_COL, Y_COL]].values\<close>: the array of the coordinates, one
  row per row of the frame; selecting a column that is absent raises KeyError.
\<close>

definition xy_values :: "dataframe \<Rightarrow> exn + point list" where
  "xy_values df =
     (if X_COL \<in> set (df_columns df) \<and> Y_COL \<in> set (df_columns df)
      then Inr (map (\<lambda>r. (row_x r, row_y r)) (df_rows df))
      else Inl KeyError)"

subsection \<open>Float64 arithmetic\<close>

text \<open>The nearest integer, ties to the even one.\<close>

definition rne :: "real \<Rightarrow> int" where
  "rne x =
     (let f = \<lfloor>x\<rfloor> in
      if x - of_int f < 1 / 2 then f
      else if 1 / 2 < x - of_int f then f + 1
      else if even f then f else f + 1)"

text \<open>
  The exponent of the binade of \<open>x\<close>: \<open>2\<^sup>e \<le> |x| < 2\<^sup>e\<^sup>+\<^sup>1\<close>, and \<open>-1022\<close> for the
  subnormal numbers.
\<close>

definition binade :: "real \<Rightarrow> int" where
  "binade x = max \<lfloor>log 2 \<bar>x\<bar>\<rfloor> (- 1022)"

text \<open>
  Rounding to 53 significant bits, to nearest with ties to even, with an exponent not
  bounded above.
\<close>

definition fl :: "real \<Rightarrow> real" where
  "fl x = (if x = 0 then 0
           else of_int (rne (x / 2 powi (binade x - 52))) * 2 powi (binade x - 52))"

text \<open>A float64 that is not negative: finite, or \<open>+inf\<close>.\<close>

datatype f64 = Fin real | PInf

instantiation f64 :: linorder
begin

definition less_eq_f64 :: "f64 \<Rightarrow> f64 \<Rightarrow> bool" where
  "less_eq_f64 a b =
     (case b of PInf \<Rightarrow> True | Fin y \<Rightarrow> (case a of PInf \<Rightarrow> False | Fin x \<Rightarrow> x \<le> y))"

definition less_f64 :: "f64 \<Rightarrow> f64 \<Rightarrow> bool" where
  "less_f64 a b = (a \<le> b \<and> \<not> b \<le> (a :: f64))"

instance
  by standard (auto simp: less_eq_f64_def less_f64_def split: f64.splits)

end

text \<open>A float64 or NaN.\<close>

type_synonym metric = "f64 option"

text \<open>A result that rounds to this magnitude or more overflows.\<close>

definition overflow :: real where
  "overflow = 2 ^ 1024"

text \<open>The float64 nearest to a real that is not negative; \<open>+inf\<close> on overflow.\<close>

definition rnd :: "real \<Rightarrow> f64" where
  "rnd x = (if overflow \<le> fl x then PInf else Fin (fl x))"

text \<open>\<^verbatim>\<open>a + b\<close>.\<close>

fun fadd :: "f64 \<Rightarrow> f64 \<Rightarrow> f64" where
  "fadd (Fin a) (Fin b) = rnd (a + b)"
| "fadd _ _ = PInf"

text \<open>\<^verbatim>\<open>tmp = a - b; tmp * tmp\<close> on two coordinates.\<close>

definition sqdiff :: "real \<Rightarrow> real \<Rightarrow> f64" where
  "sqdiff a b = (let tmp = fl (a - b) in if overflow \<le> \<bar>tmp\<bar> then PInf else rnd (tmp * tmp))"

text \<open>\<^verbatim>\<open>sqrt(d)\<close>, correctly rounded.\<close>

fun fsqrt :: "f64 \<Rightarrow> f64" where
  "fsqrt (Fin a) = rnd (sqrt a)"
| "fsqrt PInf = PInf"

text \<open>\<^verbatim>\<open>1.0 / d\<close> as numpy divides: a zero divisor gives \<open>inf\<close> and a warning.\<close>

fun one_over :: "f64 \<Rightarrow> f64" where
  "one_over (Fin a) = (if a = 0 then PInf else rnd (1 / a))"
| "one_over PInf = Fin 0"

text \<open>\<^verbatim>\<open>s / n\<close> for a count \<open>n\<close>.\<close>

fun div_count :: "f64 \<Rightarrow> nat \<Rightarrow> f64" where
  "div_count (Fin s) n = rnd (s / real n)"
| "div_count PInf n = PInf"

text \<open>Line 34: the float64 literal \<^verbatim>\<open>1e-9\<close>.\<close>

definition EPSILON :: f64 where
  "EPSILON = rnd (1 / 1000000000)"

subsection \<open>The numerical library\<close>

text \<open>\<^verbatim>\<open>for (...) res += a[i]\<close>.\<close>

fun seq_add :: "f64 \<Rightarrow> f64 list \<Rightarrow> f64" where
  "seq_add res [] = res"
| "seq_add res (x # xs) = seq_add (fadd res x) xs"

text \<open>
  numpy's pairwise summation, which \<^verbatim>\<open>np.add.reduce\<close> runs on the array: fewer than 8
  values are added in order; up to 128 values are added into 8 accumulators, which are
  then added in pairs, and the values left over are added in order; a longer array is
  split in two.
\<close>

function add_blocks :: "f64 list \<Rightarrow> f64 list \<Rightarrow> f64 list" where
  "add_blocks r ys =
     (if length ys < 8 then r else add_blocks (map2 fadd r (take 8 ys)) (drop 8 ys))"
  by pat_completeness auto
termination
  by (relation "measure (\<lambda>(r, ys). length ys)") auto

function pairwise_sum :: "f64 list \<Rightarrow> f64" where
  "pairwise_sum a =
     (if length a < 8 then seq_add (Fin 0) a
      else if length a \<le> 128 then
        seq_add
          (fadd (fadd (fadd (add_blocks (take 8 a) (drop 8 (take (length a - length a mod 8) a)) ! 0)
                            (add_blocks (take 8 a) (drop 8 (take (length a - length a mod 8) a)) ! 1))
                      (fadd (add_blocks (take 8 a) (drop 8 (take (length a - length a mod 8) a)) ! 2)
                            (add_blocks (take 8 a) (drop 8 (take (length a - length a mod 8) a)) ! 3)))
                (fadd (fadd (add_blocks (take 8 a) (drop 8 (take (length a - length a mod 8) a)) ! 4)
                            (add_blocks (take 8 a) (drop 8 (take (length a - length a mod 8) a)) ! 5))
                      (fadd (add_blocks (take 8 a) (drop 8 (take (length a - length a mod 8) a)) ! 6)
                            (add_blocks (take 8 a) (drop 8 (take (length a - length a mod 8) a)) ! 7))))
          (drop (length a - length a mod 8) a)
      else fadd (pairwise_sum (take (length a div 2 - (length a div 2) mod 8) a))
                (pairwise_sum (drop (length a div 2 - (length a div 2) mod 8) a)))"
  by pat_completeness auto
termination
  by (relation "measure length") auto

text \<open>\<^verbatim>\<open>np.mean\<close>: the sum divided by the count; NaN (with a warning) on an empty array.\<close>

definition mean :: "f64 list \<Rightarrow> metric" where
  "mean xs = (if xs = [] then None else Some (div_count (pairwise_sum xs) (length xs)))"

text \<open>
  scikit-learn's Euclidean metric on two points:
  \<^verbatim>\<open>d = 0; for j: tmp = x1[j] - x2[j]; d += tmp * tmp; return sqrt(d)\<close>.
\<close>

definition euclidean :: "point \<Rightarrow> point \<Rightarrow> f64" where
  "euclidean p q =
     fsqrt (fadd (fadd (Fin 0) (sqdiff (fst p) (fst q))) (sqdiff (snd p) (snd q)))"

text \<open>
  \<^verbatim>\<open>NearestNeighbors(n_neighbors=k).fit(fitted).kneighbors(queries)\<close>, its array of
  distances: for each query point the distances to its \<open>k\<close> nearest fitted points, in
  ascending order. A query point that is one of the fitted points is its own neighbour,
  at distance 0. Asking for more neighbours than there are fitted points raises
  ValueError.
\<close>

definition kneighbors :: "nat \<Rightarrow> point list \<Rightarrow> point list \<Rightarrow> exn + f64 list list" where
  "kneighbors k fitted queries =
     (if length fitted < k then Inl ValueError
      else Inr (map (\<lambda>q. take k (sort (map (euclidean q) fitted))) queries))"

type_synonym search = "point list \<Rightarrow> exn + f64 list list"

text \<open>Lines 58-59: the search the program runs, fitted on and queried with \<open>coords\<close>.\<close>

definition NearestNeighbors_kneighbors :: search where
  "NearestNeighbors_kneighbors coords = kneighbors 2 coords coords"

text \<open>\<^verbatim>\<open>a[:, j]\<close> on a two-dimensional array: IndexError when the array has no column \<open>j\<close>.\<close>

definition column :: "nat \<Rightarrow> f64 list list \<Rightarrow> exn + f64 list" where
  "column j a =
     (if list_all (\<lambda>r. j < length r) a then Inr (map (\<lambda>r. r ! j) a) else Inl IndexError)"

subsection \<open>calculate\_nnd\_metrics\_for\_cell (lines 43-74)\<close>

text \<open>
  The body of the \<^verbatim>\<open>try\<close> block, lines 58-67. Only the search and the column
  selection can raise; both come before the first assignment to \<^verbatim>\<open>avg_nnd\<close>, so a
  raise leaves both metrics at their initial NaN.
\<close>

definition nnd_try_body :: "search \<Rightarrow> point list \<Rightarrow> exn + (metric \<times> metric)" where
  "nnd_try_body knn coords =
     (case knn coords of
        Inl e \<Rightarrow> Inl e
      | Inr distances \<Rightarrow>
          (case column 1 distances of
             Inl e \<Rightarrow> Inl e
           | Inr nnds \<Rightarrow>
               (let avg_nnd = mean nnds;
                    nnds_no_zero = map (\<lambda>d. max d EPSILON) nnds;
                    inverse_nnds = map one_over nnds_no_zero;
                    avg_inv_nnd = mean inverse_nnds
                in Inr (avg_nnd, avg_inv_nnd))))"

text \<open>Lines 50-74, on the array of coordinates.\<close>

definition nnd_metrics :: "search \<Rightarrow> point list \<Rightarrow> metric \<times> metric \<times> nat" where
  "nnd_metrics knn coords =
     (let n_foci = length coords in
      if n_foci = 1 then (None, None, 1)
      else if 2 \<le> n_foci then
        (case nnd_try_body knn coords of
           Inl e \<Rightarrow> (None, None, n_foci)
         | Inr (avg_nnd, avg_inv_nnd) \<Rightarrow> (avg_nnd, avg_inv_nnd, n_foci))
      else (None, None, 0))"

definition calculate_nnd_metrics_for_cell_with ::
    "search \<Rightarrow> dataframe \<Rightarrow> exn + (metric \<times> metric \<times> nat)" where
  "calculate_nnd_metrics_for_cell_with knn df_cell_foci =
     (case xy_values df_cell_foci of
        Inl e \<Rightarrow> Inl e
      | Inr coords \<Rightarrow> Inr (nnd_metrics knn coords))"

definition calculate_nnd_metrics_for_cell ::
    "dataframe \<Rightarrow> exn + (metric \<times> metric \<times> nat)" where
  "calculate_nnd_metrics_for_cell =
     calculate_nnd_metrics_for_cell_with NearestNeighbors_kneighbors"

text \<open>A frame that holds exactly the given points, for concrete inputs.\<close>

definition frame_of_points :: "point list \<Rightarrow> dataframe" where
  "frame_of_points pts =
     \<lparr>df_columns = [X_COL, Y_COL],
      df_rows = map (\<lambda>p. \<lparr>row_x = fst p, row_y = snd p, row_label = []\<rparr>) pts\<rparr>"

text \<open>
  Line 60, \<^verbatim>\<open>nnds = distances[:, 1]\<close>, when the search is the program's own: for each
  point the second entry of its row of sorted distances.
\<close>

definition nnds_of :: "point list \<Rightarrow> f64 list" where
  "nnds_of pts = map (\<lambda>q. take 2 (sort (map (euclidean q) pts)) ! 1) pts"

subsection \<open>The specification's reading of the metrics\<close>

text \<open>
  The distance from point \<open>i\<close> to its nearest other point: the least of the distances,
  as the library computes them, to the points at the other indices.
\<close>

definition nearest_other_distance :: "point list \<Rightarrow> nat \<Rightarrow> f64" where
  "nearest_other_distance pts i =
     Min (set (map (\<lambda>j. euclidean (pts ! i) (pts ! j))
                   (filter (\<lambda>j. j \<noteq> i) [0..<length pts])))"

text \<open>
  The same quantities over the real numbers, as the specification words them: the
  Euclidean distance, the distance to the nearest other point, and the two means.
\<close>

definition exact_distance :: "point \<Rightarrow> point \<Rightarrow> real" where
  "exact_distance p q = sqrt ((fst p - fst q)\<^sup>2 + (snd p - snd q)\<^sup>2)"

definition exact_nearest_other :: "point list \<Rightarrow> nat \<Rightarrow> real" where
  "exact_nearest_other pts i =
     Min (set (map (\<lambda>j. exact_distance (pts ! i) (pts ! j))
                   (filter (\<lambda>j. j \<noteq> i) [0..<length pts])))"

definition spec_avgNND :: "point list \<Rightarrow> real" where
  "spec_avgNND pts =
     (\<Sum>i\<leftarrow>[0..<length pts]. exact_nearest_other pts i) / real (length pts)"

definition spec_avgInverseNND :: "point list \<Rightarrow> real" where
  "spec_avgInverseNND pts =
     (\<Sum>i\<leftarrow>[0..<length pts]. 1 / max (exact_nearest_other pts i) (1 / 1000000000))
       / real (length pts)"

text \<open>Scaling a point toward the centre \<open>c\<close> by the factor \<open>s\<close>.\<close>

definition scale_toward :: "point \<Rightarrow> real \<Rightarrow> point \<Rightarrow> point" where
  "scale_toward c s p = (fst c + s * (fst p - fst c), snd c + s * (snd p - snd c))"

subsection \<open>The per-file loop of process\_folder\_gui (lines 117-198)\<close>

text \<open>
  One CSV file of the folder: \<^verbatim>\<open>p.name\<close>, \<^verbatim>\<open>p.stem\<close>, and what
  \<^verbatim>\<open>pd.read_csv(filepath)\<close> does on it, raise or return a frame.
\<close>

datatype read_outcome = Raises exn | Frame dataframe

record csv_file =
  file_name :: string
  file_stem :: string
  file_read :: read_outcome

record result_row =
  Identifier :: string
  Label :: string
  Avg_NND :: metric
  Avg_Inverse_NND :: metric
  NumFoci :: int

text \<open>\<^verbatim>\<open>s.startswith(p)\<close>.\<close>

definition startswith :: "string \<Rightarrow> string \<Rightarrow> bool" where
  "startswith s p = (take (length p) s = p)"

text \<open>Line 101: the name of the summary file, from the timestamp of the run.\<close>

definition output_filename :: "string \<Rightarrow> string" where
  "output_filename timestamp = ''NND_Summary_Results_'' @ timestamp @ ''.csv''"

text \<open>Lines 142-154: the label of the unit, from the first row.\<close>

definition label_value :: "dataframe \<Rightarrow> string" where
  "label_value df =
     (if LABEL_COL_INPUT \<noteq> [] \<and> LABEL_COL_INPUT \<in> set (df_columns df) \<and> \<not> df_empty df
      then row_label (hd (df_rows df))
      else ''N/A'')"

text \<open>
  Lines 133-173, the body of the \<^verbatim>\<open>try\<close> block of the loop: it raises, or skips the
  file (no row), or yields the row to append.
\<close>

definition process_try_body :: "search \<Rightarrow> csv_file \<Rightarrow> exn + result_row option" where
  "process_try_body knn f =
     (case file_read f of
        Raises e \<Rightarrow> Inl e
      | Frame df_foci \<Rightarrow>
          if X_COL \<notin> set (df_columns df_foci) \<or> Y_COL \<notin> set (df_columns df_foci)
          then Inr None
          else if length (df_rows df_foci) < 1
          then Inr (Some \<lparr>Identifier = file_stem f, Label = label_value df_foci,
                          Avg_NND = None, Avg_Inverse_NND = None, NumFoci = 0\<rparr>)
          else
            (case calculate_nnd_metrics_for_cell_with knn df_foci of
               Inl e \<Rightarrow> Inl e
             | Inr (avg_nnd, avg_inv_nnd, num_foci) \<Rightarrow>
                 Inr (Some \<lparr>Identifier = file_stem f, Label = label_value df_foci,
                            Avg_NND = avg_nnd, Avg_Inverse_NND = avg_inv_nnd,
                            NumFoci = int num_foci\<rparr>)))"

text \<open>Lines 177-185 and 190-198: the rows the two handlers append.\<close>

definition empty_file_row :: "string \<Rightarrow> result_row" where
  "empty_file_row identifier =
     \<lparr>Identifier = identifier, Label = ''Empty File'',
      Avg_NND = None, Avg_Inverse_NND = None, NumFoci = 0\<rparr>"

definition processing_error_row :: "string \<Rightarrow> result_row" where
  "processing_error_row identifier =
     \<lparr>Identifier = identifier, Label = ''Processing Error'',
      Avg_NND = None, Avg_Inverse_NND = None, NumFoci = - 1\<rparr>"

text \<open>
  One iteration of the loop (lines 120-198) on the state
  (\<^verbatim>\<open>all_results\<close>, \<^verbatim>\<open>processed_count\<close>).
\<close>

definition process_file ::
    "search \<Rightarrow> csv_file \<Rightarrow> result_row list \<times> nat \<Rightarrow> result_row list \<times> nat" where
  "process_file knn f st =
     (case st of (all_results, processed_count) \<Rightarrow>
        if startswith (file_name f) ''NND_Summary_Results_'' then (all_results, processed_count)
        else
          (case process_try_body knn f of
             Inr None \<Rightarrow> (all_results, processed_count)
           | Inr (Some r) \<Rightarrow> (all_results @ [r], processed_count + 1)
           | Inl EmptyDataError \<Rightarrow>
               (all_results @ [empty_file_row (file_stem f)], processed_count)
           | Inl e \<Rightarrow>
               (all_results @ [processing_error_row (file_stem f)], processed_count)))"

text \<open>The loop, from the state it is given; the program starts it at \<open>([], 0)\<close>.\<close>

fun process_files_from ::
    "search \<Rightarrow> csv_file list \<Rightarrow> result_row list \<times> nat \<Rightarrow> result_row list \<times> nat" where
  "process_files_from knn [] st = st"
| "process_files_from knn (f # fs) st = process_files_from knn fs (process_file knn f st)"

definition process_files :: "search \<Rightarrow> csv_file list \<Rightarrow> result_row list \<times> nat" where
  "process_files knn csv_files = process_files_from knn csv_files ([], 0)"

section \<open>Properties of float64 rounding\<close>

lemma rne_of_int: "rne (of_int z) = z"
  by (simp add: rne_def)

lemma binade_eq:
  assumes "2 powi e \<le> \<bar>x\<bar>" and "\<bar>x\<bar> < 2 powi (e + 1)" and "- 1022 \<le> e"
  shows "binade x = e"
proof -
  have "0 < (2::real) powi e" by simp
  then have pos: "0 < \<bar>x\<bar>"
    using assms(1) by linarith
  have a: "(2::real) powr of_int e = 2 powi e"
    by (rule powr_real_of_int') simp_all
  have "(2::real) powr of_int (e + 1) = 2 powi (e + 1)"
    by (rule powr_real_of_int') simp_all
  then have b: "(2::real) powr (of_int e + 1) = 2 powi (e + 1)"
    by simp
  have "(2::real) powr (of_int e) \<le> \<bar>x\<bar> \<and> \<bar>x\<bar> < 2 powr (of_int e + 1)"
    unfolding a b using assms(1,2) by blast
  then have "\<lfloor>log 2 \<bar>x\<bar>\<rfloor> = e"
    using floor_log_eq_powr_iff [of "\<bar>x\<bar>" 2 e] pos by simp
  then show ?thesis
    using assms(3) by (simp add: binade_def)
qed

lemma fl_eval:
  assumes "2 powi e \<le> \<bar>x\<bar>" and "\<bar>x\<bar> < 2 powi (e + 1)" and "- 1022 \<le> e"
  shows "fl x = of_int (rne (x / 2 powi (e - 52))) * 2 powi (e - 52)"
proof -
  have "0 < (2::real) powi e" by simp
  then have "0 < \<bar>x\<bar>" using assms(1) by linarith
  then have "x \<noteq> 0" by auto
  then show ?thesis by (simp add: fl_def binade_eq [OF assms])
qed

text \<open>the binade of a nonzero number lies below its magnitude unless clamped\<close>

lemma binade_ge: "- 1022 \<le> binade x"
  by (simp add: binade_def)

lemma binade_normal:
  assumes "x \<noteq> 0" and "- 1022 < binade x"
  shows "2 powi binade x \<le> \<bar>x\<bar>"
proof -
  have e: "binade x = \<lfloor>log 2 \<bar>x\<bar>\<rfloor>"
    using assms(2) by (simp add: binade_def max_def split: if_splits)
  have "(2::real) powr of_int \<lfloor>log 2 \<bar>x\<bar>\<rfloor> \<le> \<bar>x\<bar>"
    using floor_log_eq_powr_iff [of "\<bar>x\<bar>" 2 "\<lfloor>log 2 \<bar>x\<bar>\<rfloor>"] assms(1) by simp
  moreover have "(2::real) powr of_int \<lfloor>log 2 \<bar>x\<bar>\<rfloor> = 2 powi \<lfloor>log 2 \<bar>x\<bar>\<rfloor>"
    by (rule powr_real_of_int') simp_all
  ultimately show ?thesis by (simp add: e)
qed

lemma binade_upper:
  assumes "x \<noteq> 0"
  shows "\<bar>x\<bar> < 2 powi (binade x + 1)"
proof -
  have "\<bar>x\<bar> < (2::real) powr (of_int \<lfloor>log 2 \<bar>x\<bar>\<rfloor> + 1)"
    using floor_log_eq_powr_iff [of "\<bar>x\<bar>" 2 "\<lfloor>log 2 \<bar>x\<bar>\<rfloor>"] assms(1) by simp
  moreover have "(2::real) powr of_int (\<lfloor>log 2 \<bar>x\<bar>\<rfloor> + 1) = 2 powi (\<lfloor>log 2 \<bar>x\<bar>\<rfloor> + 1)"
    by (rule powr_real_of_int') simp_all
  ultimately have "\<bar>x\<bar> < 2 powi (\<lfloor>log 2 \<bar>x\<bar>\<rfloor> + 1)" by simp
  also have "\<dots> \<le> 2 powi (binade x + 1)"
    by (intro power_int_increasing) (simp_all add: binade_def)
  finally show ?thesis .
qed

lemma fl_dyadic:
  assumes "\<bar>m\<bar> < 2 ^ 53" and "- 1074 \<le> j"
  shows "fl (of_int m * 2 powi j) = of_int m * 2 powi j"
proof (cases "m = 0")
  case True
  then show ?thesis by (simp add: fl_def)
next
  case False
  let ?x = "of_int m * (2::real) powi j"
  let ?e = "binade ?x"
  have x0: "?x \<noteq> 0" using False by simp
  have "j \<ge> ?e - 52"
  proof (rule ccontr)
    assume "\<not> j \<ge> ?e - 52"
    then have j: "j + 53 \<le> ?e" by simp
    then have "- 1022 < ?e" using assms(2) by linarith
    then have "2 powi ?e \<le> \<bar>?x\<bar>" using x0 by (rule binade_normal [rotated])
    moreover have "\<bar>?x\<bar> < 2 ^ 53 * 2 powi j"
    proof -
      have "\<bar>?x\<bar> = real_of_int \<bar>m\<bar> * 2 powi j" by (simp add: abs_mult)
      moreover have "real_of_int \<bar>m\<bar> < real_of_int (2 ^ 53)"
        using assms(1) by (simp only: of_int_less_iff)
      then have "real_of_int \<bar>m\<bar> < 2 ^ 53" by simp
      ultimately show ?thesis by simp
    qed
    moreover have "(2::real) ^ 53 * 2 powi j = 2 powi (j + 53)"
      by (simp add: power_int_add)
    moreover have "(2::real) powi (j + 53) \<le> 2 powi ?e"
      using j by (intro power_int_increasing) simp_all
    ultimately show False by linarith
  qed
  then obtain k where k: "j - (?e - 52) = int k"
    using nonneg_int_cases [of "j - (?e - 52)"] by auto
  have "?x / 2 powi (?e - 52) = of_int m * 2 powi (j - (?e - 52))"
    by (simp add: power_int_diff)
  also have "\<dots> = of_int (m * 2 ^ k)"
    by (simp add: k)
  finally have q: "?x / 2 powi (?e - 52) = of_int (m * 2 ^ k)" .
  have "fl ?x = of_int (rne (?x / 2 powi (?e - 52))) * 2 powi (?e - 52)"
    using x0 by (simp add: fl_def)
  also have "\<dots> = (?x / 2 powi (?e - 52)) * 2 powi (?e - 52)"
    unfolding q rne_of_int ..
  also have "\<dots> = ?x" by simp
  finally show ?thesis .
qed

lemma fl_of_int: "\<bar>m\<bar> < 2 ^ 53 \<Longrightarrow> fl (of_int m) = of_int m"
  using fl_dyadic [of m 0] by simp

lemma fl_numeral: "numeral n < (2 ^ 53 :: int) \<Longrightarrow> fl (numeral n) = numeral n"
  using fl_of_int [of "numeral n"] by simp

lemma fl_zero: "fl 0 = 0"
  by (simp add: fl_def)



declare pairwise_sum.simps [simp del] add_blocks.simps [simp del]

lemma pairwise_sum_short: "length a < 8 \<Longrightarrow> pairwise_sum a = seq_add (Fin 0) a"
  by (subst pairwise_sum.simps) simp

lemma rne_minus: "rne (- x) = - rne x"
proof (cases "x = of_int \<lfloor>x\<rfloor>")
  case True
  then obtain z where "x = of_int z" ..
  then show ?thesis by (simp add: rne_of_int flip: of_int_minus)
next
  case False
  then have c: "\<lfloor>- x\<rfloor> = - \<lfloor>x\<rfloor> - 1"
    by (simp add: floor_minus ceiling_altdef)
  have f: "of_int \<lfloor>x\<rfloor> < x" using False of_int_floor_le [of x] by (auto simp: less_le)
  show ?thesis
    unfolding rne_def Let_def c using f by (auto simp: algebra_simps)
qed

lemma binade_minus: "binade (- x) = binade x"
  by (simp add: binade_def)

lemma fl_minus: "fl (- x) = - fl x"
  by (simp add: fl_def binade_minus rne_minus)

lemma rnd_Fin: "fl x < overflow \<Longrightarrow> rnd x = Fin (fl x)"
  by (simp add: rnd_def)

lemma below_overflow:
  assumes "x \<le> 2 ^ 512"
  shows "x < overflow" and "2 * x < overflow"
proof -
  have a: "(2::real) ^ 512 < 2 ^ 1023"
    by (rule power_strict_increasing) simp_all
  have b: "(2::real) ^ 1024 = 2 * 2 ^ 1023"
    by (simp only: power_Suc [symmetric]) simp
  have c: "(2::real) ^ 1023 < 2 ^ 1024"
    by (rule power_strict_increasing) simp_all
  from assms a have x: "x < 2 ^ 1023" by (rule le_less_trans)
  then have "2 * x < 2 * 2 ^ 1023"
    by (simp only: mult_less_cancel_left_pos zero_less_numeral)
  then show "2 * x < overflow" by (simp only: overflow_def b)
  from x c show "x < overflow" unfolding overflow_def by (rule less_trans)
qed

lemma overflow_pos [simp]: "0 < overflow" "\<not> overflow \<le> 0"
proof -
  show "0 < overflow" unfolding overflow_def by (rule zero_less_power) simp
  then show "\<not> overflow \<le> 0" by (simp only: not_le)
qed

lemma fl_quarter: "fl (1 / 4) = 1 / 4"
  using fl_dyadic [of 1 "- 2"] by (simp add: power_int_minus)

lemma fl_half: "fl (1 / 2) = 1 / 2"
  using fl_dyadic [of 1 "- 1"] by (simp add: power_int_minus)

lemma EPSILON_value: "EPSILON = Fin (4835703278458517 / 2 ^ 82)"
proof -
  have "fl (1 / 1000000000) = 4835703278458517 / 2 ^ 82"
    by (subst fl_eval [where e = "- 30"]) (simp_all add: rne_def power_int_minus Let_def)
  then show ?thesis unfolding EPSILON_def rnd_def by (simp add: overflow_def)
qed

lemma rne_le: "x \<le> of_int z \<Longrightarrow> rne x \<le> z"
proof -
  assume a: "x \<le> of_int z"
  show ?thesis
  proof (cases "x = of_int z")
    case True
    then show ?thesis by (simp add: rne_of_int)
  next
    case False
    then have "x < of_int z" using a by simp
    then have "\<lfloor>x\<rfloor> < z" by (simp add: floor_less_iff)
    then show ?thesis by (simp add: rne_def Let_def)
  qed
qed

lemma rne_ge: "of_int z \<le> x \<Longrightarrow> z \<le> rne x"
proof -
  assume "of_int z \<le> x"
  then have "z \<le> \<lfloor>x\<rfloor>" by (simp add: le_floor_iff)
  then show ?thesis by (simp add: rne_def Let_def)
qed

lemma rne_mono: "x \<le> y \<Longrightarrow> rne x \<le> rne y"
proof -
  assume xy: "x \<le> y"
  then have f: "\<lfloor>x\<rfloor> \<le> \<lfloor>y\<rfloor>" by (rule floor_mono)
  show ?thesis
  proof (cases "\<lfloor>x\<rfloor> = \<lfloor>y\<rfloor>")
    case True
    then show ?thesis using xy by (simp add: rne_def Let_def)
  next
    case False
    then have "\<lfloor>x\<rfloor> + 1 \<le> \<lfloor>y\<rfloor>" using f by simp
    moreover have "rne x \<le> \<lfloor>x\<rfloor> + 1" by (simp add: rne_def Let_def)
    moreover have "\<lfloor>y\<rfloor> \<le> rne y" by (simp add: rne_def Let_def)
    ultimately show ?thesis by linarith
  qed
qed

lemma binade_mono:
  assumes "0 < x" and "x \<le> y"
  shows "binade x \<le> binade y"
proof -
  have "log 2 \<bar>x\<bar> \<le> log 2 \<bar>y\<bar>" using assms by simp
  then have "\<lfloor>log 2 \<bar>x\<bar>\<rfloor> \<le> \<lfloor>log 2 \<bar>y\<bar>\<rfloor>" by (rule floor_mono)
  then show ?thesis by (simp add: binade_def)
qed

lemma fl_pos_eq:
  assumes "x \<noteq> 0"
  shows "fl x = of_int (rne (x / 2 powi (binade x - 52))) * 2 powi (binade x - 52)"
  using assms by (simp add: fl_def)

lemma fl_upper:
  assumes "0 < x"
  shows "fl x \<le> 2 powi (binade x + 1)"
proof -
  let ?u = "(2::real) powi (binade x - 52)"
  have u: "0 < ?u" by simp
  have "x < 2 powi (binade x + 1)" using binade_upper [of x] assms by simp
  also have "\<dots> = 2 ^ 53 * ?u"
    by (simp add: power_int_add power_int_diff)
  finally have "x / ?u < 2 ^ 53" using u by (simp add: divide_less_eq)
  then have "x / ?u \<le> of_int (2 ^ 53)" by simp
  then have "rne (x / ?u) \<le> 2 ^ 53" by (rule rne_le)
  then have "real_of_int (rne (x / ?u)) \<le> real_of_int (2 ^ 53)" by (simp only: of_int_le_iff)
  then have "of_int (rne (x / ?u)) * ?u \<le> 2 ^ 53 * ?u" using u by simp
  also have "\<dots> = 2 powi (binade x + 1)"
    by (simp add: power_int_add power_int_diff)
  finally show ?thesis using assms by (simp add: fl_pos_eq)
qed

lemma fl_lower:
  assumes "0 < x" and "- 1022 < binade x"
  shows "2 powi binade x \<le> fl x"
proof -
  let ?u = "(2::real) powi (binade x - 52)"
  have u: "0 < ?u" by simp
  have "2 powi binade x \<le> x" using binade_normal [of x] assms by simp
  moreover have "(2::real) powi binade x = 2 ^ 52 * ?u"
    by (simp add: power_int_diff)
  ultimately have "2 ^ 52 \<le> x / ?u" using u by (simp add: le_divide_eq)
  then have "of_int (2 ^ 52) \<le> x / ?u" by simp
  then have "2 ^ 52 \<le> rne (x / ?u)" by (rule rne_ge)
  then have "real_of_int (2 ^ 52) \<le> real_of_int (rne (x / ?u))" by (simp only: of_int_le_iff)
  then have "2 ^ 52 * ?u \<le> of_int (rne (x / ?u)) * ?u" using u by simp
  moreover have "(2::real) powi binade x = 2 ^ 52 * ?u"
    by (simp add: power_int_diff)
  ultimately show ?thesis using assms by (simp add: fl_pos_eq)
qed

lemma fl_nonneg: "0 \<le> x \<Longrightarrow> 0 \<le> fl x"
proof -
  assume x: "0 \<le> x"
  have "0 \<le> rne (x / 2 powi (binade x - 52))"
    by (rule rne_ge) (use x in simp)
  then show ?thesis by (simp add: fl_def)
qed

lemma fl_mono_pos:
  assumes "0 < x" and "x \<le> y"
  shows "fl x \<le> fl y"
proof (cases "binade x = binade y")
  case True
  let ?u = "(2::real) powi (binade y - 52)"
  have "x / ?u \<le> y / ?u" using assms(2) by (simp add: divide_right_mono)
  then have "rne (x / ?u) \<le> rne (y / ?u)" by (rule rne_mono)
  then have "real_of_int (rne (x / ?u)) * ?u \<le> real_of_int (rne (y / ?u)) * ?u"
    by (simp add: mult_right_mono)
  then show ?thesis using assms True by (simp add: fl_def)
next
  case False
  then have lt: "binade x < binade y" using binade_mono [OF assms] by simp
  then have "- 1022 < binade y" using binade_ge [of x] by linarith
  then have "2 powi binade y \<le> fl y" using assms by (intro fl_lower) simp_all
  moreover have "fl x \<le> 2 powi (binade x + 1)" using assms(1) by (rule fl_upper)
  moreover have "(2::real) powi (binade x + 1) \<le> 2 powi binade y"
    using lt by (intro power_int_increasing) simp_all
  ultimately show ?thesis by linarith
qed

lemma fl_mono: "x \<le> y \<Longrightarrow> fl x \<le> fl y"
proof -
  assume xy: "x \<le> y"
  consider "0 < x" | "x \<le> 0" "0 \<le> y" | "y < 0" by linarith
  then show ?thesis
  proof cases
    case 1
    then show ?thesis using xy by (rule fl_mono_pos)
  next
    case 2
    have "fl x \<le> 0" using fl_nonneg [of "- x"] 2(1) by (simp add: fl_minus)
    moreover have "0 \<le> fl y" using 2(2) by (rule fl_nonneg)
    ultimately show ?thesis by simp
  next
    case 3
    have "fl (- y) \<le> fl (- x)" using 3 xy by (intro fl_mono_pos) simp_all
    then show ?thesis by (simp add: fl_minus)
  qed
qed

lemma fl_repr: "\<exists>m j. fl x = of_int m * 2 powi j \<and> \<bar>m\<bar> < 2 ^ 53 \<and> - 1074 \<le> j"
proof (cases "x = 0")
  case True
  then show ?thesis by (intro exI [of _ 0] exI [of _ 0]) (simp add: fl_def)
next
  case False
  let ?e = "binade x"
  let ?u = "(2::real) powi (?e - 52)"
  let ?k = "rne (x / ?u)"
  have u: "0 < ?u" by simp
  have e: "- 1022 \<le> ?e" by (rule binade_ge)
  have "\<bar>x\<bar> < 2 powi (?e + 1)" using False by (rule binade_upper)
  also have "\<dots> = 2 ^ 53 * ?u" by (simp add: power_int_add power_int_diff)
  finally have "\<bar>x\<bar> / ?u < 2 ^ 53" using u by (simp add: divide_less_eq)
  then have b: "\<bar>x / ?u\<bar> < 2 ^ 53" by simp
  have b1: "x / ?u \<le> 2 ^ 53" and b2: "- (2 ^ 53) \<le> x / ?u"
    using b by linarith+
  have "?k \<le> 2 ^ 53" by (rule rne_le) (use b1 in simp)
  moreover have "- (2 ^ 53) \<le> ?k" by (rule rne_ge) (use b2 in simp)
  ultimately have k: "\<bar>?k\<bar> \<le> 2 ^ 53" by simp
  show ?thesis
  proof (cases "\<bar>?k\<bar> = 2 ^ 53")
    case False
    then have "\<bar>?k\<bar> < 2 ^ 53" using k by simp
    moreover have "- 1074 \<le> ?e - 52" using e by simp
    moreover have "fl x = of_int ?k * 2 powi (?e - 52)" using \<open>x \<noteq> 0\<close> by (simp add: fl_def)
    ultimately show ?thesis by blast
  next
    case True
    then obtain s :: int where s: "?k = s * 2 ^ 53" "\<bar>s\<bar> = 1"
      by (cases "0 \<le> ?k") (auto intro: that [of 1] that [of "- 1"])
    have "fl x = of_int ?k * 2 powi (?e - 52)" using \<open>x \<noteq> 0\<close> by (simp add: fl_def)
    also have "\<dots> = of_int (s * 2 ^ 52) * 2 powi (?e - 51)"
    proof -
      have "(2::real) powi (?e - 51) = 2 * 2 powi (?e - 52)"
        using power_int_add [of "2::real" "?e - 52" 1] by simp
      then show ?thesis by (simp add: s(1))
    qed
    finally have "fl x = of_int (s * 2 ^ 52) * 2 powi (?e - 51)" .
    moreover have "\<bar>s * 2 ^ 52\<bar> < (2 ^ 53 :: int)" using s(2) by (simp add: abs_mult)
    moreover have "- 1074 \<le> ?e - 51" using e by simp
    ultimately show ?thesis by blast
  qed
qed

lemma fl_idem: "fl (fl x) = fl x"
proof -
  obtain m j where "fl x = of_int m * 2 powi j" "\<bar>m\<bar> < 2 ^ 53" "- 1074 \<le> j"
    using fl_repr by blast
  then show ?thesis using fl_dyadic [of m j] by simp
qed

lemma fl_double: "fl (fl x + fl x) = fl x + fl x"
proof -
  obtain m j where r: "fl x = of_int m * 2 powi j" "\<bar>m\<bar> < 2 ^ 53" "- 1074 \<le> j"
    using fl_repr by blast
  have "(2::real) powi (j + 1) = 2 * 2 powi j"
    using power_int_add [of "2::real" j 1] by simp
  then have "fl x + fl x = of_int m * 2 powi (j + 1)" by (simp add: r(1))
  moreover have "- 1074 \<le> j + 1" using r(3) by simp
  ultimately show ?thesis using fl_dyadic [of m "j + 1"] r(2) by simp
qed

section \<open>Properties of the calculator\<close>

subsection \<open>Order and arithmetic of the float64 values\<close>

lemma Fin_le_iff [simp]: "Fin a \<le> Fin b \<longleftrightarrow> a \<le> b"
  by (simp add: less_eq_f64_def)

lemma le_PInf [simp]: "a \<le> PInf"
  by (simp add: less_eq_f64_def)

lemma PInf_le_iff [simp]: "PInf \<le> a \<longleftrightarrow> a = PInf"
  by (cases a) (simp_all add: less_eq_f64_def)

lemma Fin_less_iff [simp]: "Fin a < Fin b \<longleftrightarrow> a < b"
  by (auto simp: less_f64_def)

lemma rnd_nonneg: "0 \<le> x \<Longrightarrow> Fin 0 \<le> rnd x"
  by (simp add: rnd_def fl_nonneg)

lemma rnd_mono: "x \<le> y \<Longrightarrow> rnd x \<le> rnd y"
  using fl_mono [of x y] by (simp add: rnd_def)

lemma rnd_zero: "rnd 0 = Fin 0"
  by (simp add: rnd_def fl_zero)

lemma fadd_mono: "a \<le> a' \<Longrightarrow> b \<le> b' \<Longrightarrow> fadd a b \<le> fadd a' b'"
  by (cases a; cases a'; cases b; cases b') (simp_all add: rnd_mono)

lemma fadd_nonneg: "Fin 0 \<le> a \<Longrightarrow> Fin 0 \<le> b \<Longrightarrow> Fin 0 \<le> fadd a b"
  by (cases a; cases b) (simp_all add: rnd_nonneg)

lemma sqdiff_nonneg: "Fin 0 \<le> sqdiff a b"
  by (simp add: sqdiff_def Let_def rnd_nonneg)

lemma sqdiff_self: "sqdiff a a = Fin 0"
  by (simp add: sqdiff_def fl_zero rnd_zero)

lemma sqdiff_sym: "sqdiff a b = sqdiff b a"
proof -
  have "fl (a - b) = - fl (b - a)"
    using fl_minus [of "b - a"] by simp
  then show ?thesis by (simp add: sqdiff_def Let_def)
qed

lemma fsqrt_nonneg: "Fin 0 \<le> a \<Longrightarrow> Fin 0 \<le> fsqrt a"
  by (cases a) (simp_all add: rnd_nonneg)

lemma fsqrt_mono: "a \<le> b \<Longrightarrow> fsqrt a \<le> fsqrt b"
  by (cases a; cases b) (simp_all add: rnd_mono)

lemma euclidean_self: "euclidean p p = Fin 0"
  by (simp add: euclidean_def sqdiff_self rnd_zero)

lemma euclidean_nonneg: "Fin 0 \<le> euclidean p q"
  by (simp add: euclidean_def fsqrt_nonneg fadd_nonneg sqdiff_nonneg)

lemma euclidean_sym: "euclidean p q = euclidean q p"
  by (simp add: euclidean_def sqdiff_sym [of "fst p"] sqdiff_sym [of "snd p"])

lemma filter_eq_upt: "filter (\<lambda>j. j = i) [0..<n] = (if i < n then [i] else [])"
  by (induction n) auto

lemma mset_others:
  assumes "i < n"
  shows "mset (map f [0..<n]) = add_mset (f i) (mset (map f (filter (\<lambda>j. j \<noteq> i) [0..<n])))"
proof -
  have "mset [0..<n] = mset (filter (\<lambda>j. j = i) [0..<n]) + mset (filter (\<lambda>j. j \<noteq> i) [0..<n])"
    by (simp only: mset_filter multiset_partition [symmetric])
  then have "mset [0..<n] = add_mset i (mset (filter (\<lambda>j. j \<noteq> i) [0..<n]))"
    using assms by (simp add: filter_eq_upt)
  then have "image_mset f (mset [0..<n]) = image_mset f (add_mset i (mset (filter (\<lambda>j. j \<noteq> i) [0..<n])))"
    by (rule arg_cong)
  then show ?thesis by simp
qed

lemma sort_least_first:
  fixes ys :: "'a :: linorder list"
  assumes "mset xs = add_mset a (mset ys)" and "\<forall>y\<in>set ys. a \<le> y"
  shows "sort xs = a # sort ys"
proof (rule properties_for_sort)
  show "mset (a # sort ys) = mset xs" using assms(1) by simp
  show "sorted (a # sort ys)" using assms(2) by simp
qed

lemma hd_sorted_Min:
  fixes zs :: "'a :: linorder list"
  assumes "zs \<noteq> []" and "sorted zs"
  shows "hd zs = Min (set zs)"
proof (cases zs)
  case Nil
  with assms show ?thesis by simp
next
  case (Cons z zs')
  with assms(2) have "\<forall>y\<in>set zs. z \<le> y" by auto
  then have "Min (set zs) = z"
    using Cons by (intro Min_eqI) auto
  with Cons show ?thesis by simp
qed

lemma second_smallest:
  fixes ds :: "nat \<Rightarrow> 'a :: linorder"
  assumes "i < n" and "2 \<le> n" and "\<forall>j<n. ds i \<le> ds j"
  shows "take 2 (sort (map ds [0..<n])) ! 1
           = Min (set (map ds (filter (\<lambda>j. j \<noteq> i) [0..<n])))"
proof -
  let ?others = "map ds (filter (\<lambda>j. j \<noteq> i) [0..<n])"
  have "(if i = 0 then 1 else 0) \<in> set (filter (\<lambda>j. j \<noteq> i) [0..<n])"
    using assms(2) by auto
  then have "filter (\<lambda>j. j \<noteq> i) [0..<n] \<noteq> []"
    by (metis empty_iff empty_set)
  then have ne: "?others \<noteq> []" by simp
  have "mset (map ds [0..<n]) = add_mset (ds i) (mset ?others)"
    using mset_others [OF assms(1), of ds] by simp
  moreover have "\<forall>y\<in>set ?others. ds i \<le> y" using assms(3) by auto
  ultimately have s: "sort (map ds [0..<n]) = ds i # sort ?others"
    by (rule sort_least_first)
  have ne': "sort ?others \<noteq> []" using ne by (metis length_sort length_0_conv)
  have "take 2 (sort (map ds [0..<n])) ! 1 = sort (map ds [0..<n]) ! 1" by simp
  also have "\<dots> = hd (sort ?others)" using s ne' by (simp add: hd_conv_nth)
  also have "\<dots> = Min (set (sort ?others))" using ne' by (intro hd_sorted_Min) simp_all
  finally show ?thesis by simp
qed

lemma map_by_index: "map f xs = map (\<lambda>i. f (xs ! i)) [0..<length xs]"
  by (rule nth_equalityI) simp_all

lemma nnds_of_spec:
  assumes "2 \<le> length pts"
  shows "nnds_of pts = map (nearest_other_distance pts) [0..<length pts]"
proof -
  have "take 2 (sort (map (euclidean (pts ! i)) pts)) ! 1 = nearest_other_distance pts i"
    if "i < length pts" for i
  proof -
    have "map (euclidean (pts ! i)) pts
            = map (\<lambda>j. euclidean (pts ! i) (pts ! j)) [0..<length pts]"
      by (rule map_by_index)
    moreover have "take 2 (sort (map (\<lambda>j. euclidean (pts ! i) (pts ! j)) [0..<length pts])) ! 1
            = Min (set (map (\<lambda>j. euclidean (pts ! i) (pts ! j))
                            (filter (\<lambda>j. j \<noteq> i) [0..<length pts])))"
      using that assms by (intro second_smallest) (simp_all add: euclidean_self euclidean_nonneg)
    ultimately show ?thesis by (simp add: nearest_other_distance_def)
  qed
  then have "map (\<lambda>i. take 2 (sort (map (euclidean (pts ! i)) pts)) ! 1) [0..<length pts]
               = map (nearest_other_distance pts) [0..<length pts]"
    by simp
  moreover have "nnds_of pts
      = map (\<lambda>i. take 2 (sort (map (euclidean (pts ! i)) pts)) ! 1) [0..<length pts]"
    unfolding nnds_of_def by (rule map_by_index)
  ultimately show ?thesis by simp
qed

lemma length_nnds_of: "length (nnds_of pts) = length pts"
  by (simp add: nnds_of_def)

lemma search_succeeds:
  assumes "2 \<le> length pts"
  shows "NearestNeighbors_kneighbors pts
           = Inr (map (\<lambda>q. take 2 (sort (map (euclidean q) pts))) pts)"
  using assms by (simp add: NearestNeighbors_kneighbors_def kneighbors_def)

lemma column_of_search:
  assumes "2 \<le> length pts"
  shows "column 1 (map (\<lambda>q. take 2 (sort (map (euclidean q) pts))) pts) = Inr (nnds_of pts)"
  using assms by (simp add: column_def nnds_of_def list_all_iff o_def)

lemma nnd_try_body_eq:
  assumes "2 \<le> length pts"
  shows "nnd_try_body NearestNeighbors_kneighbors pts
           = Inr (mean (nnds_of pts), mean (map (\<lambda>d. one_over (max d EPSILON)) (nnds_of pts)))"
  unfolding nnd_try_body_def search_succeeds [OF assms]
  by (simp only: sum.case column_of_search [OF assms] Let_def map_map o_def)

lemma nnd_metrics_eq:
  assumes "2 \<le> length pts"
  shows "nnd_metrics NearestNeighbors_kneighbors pts
           = (mean (nnds_of pts), mean (map (\<lambda>d. one_over (max d EPSILON)) (nnds_of pts)),
              length pts)"
  using assms by (simp add: nnd_metrics_def Let_def nnd_try_body_eq)

lemma calculate_eq:
  assumes "xy_values df = Inr pts" and "2 \<le> length pts"
  shows "calculate_nnd_metrics_for_cell df
           = Inr (mean (nnds_of pts), mean (map (\<lambda>d. one_over (max d EPSILON)) (nnds_of pts)),
                  length pts)"
  using assms
  by (simp add: calculate_nnd_metrics_for_cell_def calculate_nnd_metrics_for_cell_with_def
      nnd_metrics_eq)

lemma xy_values_frame_of_points: "xy_values (frame_of_points pts) = Inr pts"
  by (simp add: xy_values_def frame_of_points_def o_def)

lemma xy_values_length:
  "xy_values df = Inr pts \<Longrightarrow> length pts = length (df_rows df)"
  by (auto simp: xy_values_def split: if_splits)

lemma nnd_metrics_count: "\<exists>a b. nnd_metrics knn pts = (a, b, length pts)"
proof -
  consider "length pts = 0" | "length pts = 1" | "2 \<le> length pts"
    by linarith
  then show ?thesis
    by cases (auto simp: nnd_metrics_def Let_def split: sum.splits prod.splits)
qed

lemma nnd_metrics_search_fails:
  assumes "knn pts = Inl e"
  shows "nnd_metrics knn pts = (None, None, length pts)"
proof -
  consider "length pts = 0" | "length pts = 1" | "2 \<le> length pts"
    by linarith
  then show ?thesis
    using assms by cases (simp_all add: nnd_metrics_def Let_def nnd_try_body_def)
qed

lemma two_points_four:
  "calculate_nnd_metrics_for_cell (frame_of_points [(0, 0), (0, 4)])
     = Inr (Some (Fin 4), Some (Fin (1 / 4)), 2)"
proof -
  have d: "euclidean (0, 0) (0, 4) = Fin 4" "euclidean (0, 4) (0, 0) = Fin 4"
    by (simp_all add: euclidean_def sqdiff_def fl_zero fl_minus fl_numeral rnd_def overflow_def)
  have n: "nnds_of [(0, 0), (0, 4)] = [Fin 4, Fin 4]"
    by (simp add: nnds_of_def d euclidean_self)
  have m1: "mean [Fin 4, Fin 4] = Some (Fin 4)"
    by (simp add: mean_def pairwise_sum_short fl_numeral rnd_def overflow_def)
  have m2: "mean [Fin (1 / 4), Fin (1 / 4)] = Some (Fin (1 / 4))"
    by (simp add: mean_def pairwise_sum_short fl_quarter fl_half rnd_def overflow_def)
  have i: "one_over (max (Fin 4) EPSILON) = Fin (1 / 4)"
    by (simp add: EPSILON_value max_def fl_quarter rnd_def overflow_def)
  show ?thesis
    using calculate_eq [OF xy_values_frame_of_points, of "[(0, 0), (0, 4)]"]
    by (simp add: n m1 m2 i)
qed

subsection \<open>Two points, and evaluation on concrete inputs\<close>

lemma rnd_Fin_D: "rnd x = Fin a \<Longrightarrow> a = fl x \<and> a < overflow"
  by (auto simp: rnd_def split: if_splits)

lemma fadd_Fin_D: "fadd a b = Fin c \<Longrightarrow> fl c = c \<and> c < overflow"
  by (cases a; cases b) (auto dest!: rnd_Fin_D simp: fl_idem)

lemma sqrt_below_overflow:
  assumes "0 \<le> a" and "a < overflow"
  shows "sqrt a \<le> 2 ^ 512"
proof -
  have "(2::real) ^ 1024 = (2 ^ 512)\<^sup>2"
    by (simp only: power_mult [symmetric]) simp
  then have "a \<le> (2 ^ 512)\<^sup>2" using assms(2) by (simp only: overflow_def)
  then have "sqrt a \<le> sqrt ((2 ^ 512)\<^sup>2)" by (rule real_sqrt_le_mono)
  then show ?thesis by (simp only: real_sqrt_abs abs_power2 abs_numeral power_abs) 
qed

lemma fl_pow2_512: "fl (2 ^ 512) = 2 ^ 512"
  using fl_dyadic [of 1 512] by (simp add: power_int_def)

lemma euclidean_cases:
  "euclidean p q = PInf \<or>
   (\<exists>r. euclidean p q = Fin r \<and> fl r = r \<and> 0 \<le> r \<and> r \<le> 2 ^ 512)"
proof -
  let ?s = "fadd (fadd (Fin 0) (sqdiff (fst p) (fst q))) (sqdiff (snd p) (snd q))"
  have e: "euclidean p q = fsqrt ?s" by (simp add: euclidean_def)
  have s0: "Fin 0 \<le> ?s" by (simp add: fadd_nonneg sqdiff_nonneg)
  show ?thesis
  proof (cases ?s)
    case PInf
    then show ?thesis by (simp add: e)
  next
    case (Fin a)
    then have a: "0 \<le> a" "a < overflow"
      using s0 fadd_Fin_D [of _ _ a] by auto
    have "sqrt a \<le> 2 ^ 512" using a by (rule sqrt_below_overflow)
    then have "fl (sqrt a) \<le> fl (2 ^ 512)" by (rule fl_mono)
    then have b: "fl (sqrt a) \<le> 2 ^ 512" by (simp only: fl_pow2_512)
    then have "fl (sqrt a) < overflow" by (rule below_overflow(1))
    then have "euclidean p q = Fin (fl (sqrt a))" by (simp add: e Fin rnd_def)
    moreover have "0 \<le> fl (sqrt a)" using a(1) by (intro fl_nonneg) simp
    ultimately show ?thesis using b by (simp add: fl_idem)
  qed
qed

lemma mean_pair:
  assumes "fl r = r" and "0 \<le> r" and "r \<le> 2 ^ 512"
  shows "mean [Fin r, Fin r] = Some (Fin r)"
proof -
  have small: "r < overflow" "2 * r < overflow"
    using assms(3) by (rule below_overflow)+
  have d: "fl (2 * r) = 2 * r" using fl_double [of r] assms(1) by simp
  have "fadd (Fin 0) (Fin r) = Fin r" using small(1) by (simp add: rnd_def assms(1))
  moreover have "fadd (Fin r) (Fin r) = Fin (2 * r)" using small(2) by (simp add: rnd_def d)
  moreover have "div_count (Fin (2 * r)) 2 = Fin r" using small(1) by (simp add: rnd_def assms(1))
  ultimately show ?thesis by (simp add: mean_def pairwise_sum_short)
qed

lemma mean_pair_inf: "mean [PInf, PInf] = Some PInf"
  by (simp add: mean_def pairwise_sum_short)

lemma mean_pair_distance: "mean [euclidean p q, euclidean p q] = Some (euclidean p q)"
  using euclidean_cases [of p q] by (auto simp: mean_pair mean_pair_inf)

lemma one_over_EPSILON: "one_over EPSILON = Fin (8388607999999999 / 8388608)"
proof -
  have "fl (1 / (4835703278458517 / 2 ^ 82)) = 8388607999999999 / 8388608"
    by (subst fl_eval [where e = 29]) (simp_all add: rne_def Let_def)
  then show ?thesis by (simp add: EPSILON_value rnd_def overflow_def)
qed

lemma EPSILON_pos: "Fin 0 < EPSILON"
  by (simp add: EPSILON_value)

lemma inverse_cases:
  assumes "EPSILON \<le> m"
  shows "\<exists>r. one_over m = Fin r \<and> fl r = r \<and> 0 \<le> r \<and> r \<le> 8388607999999999 / 8388608"
proof (cases m)
  case PInf
  then show ?thesis by (simp add: fl_zero)
next
  case (Fin \<mu>)
  let ?\<epsilon> = "4835703278458517 / 2 ^ 82 :: real"
  have \<mu>: "?\<epsilon> \<le> \<mu>" using assms by (simp add: Fin EPSILON_value)
  then have pos: "0 < \<mu>" by (rule less_le_trans [rotated]) simp
  have "1 / \<mu> \<le> 1 / ?\<epsilon>" using \<mu> by (intro divide_left_mono) simp_all
  then have "fl (1 / \<mu>) \<le> fl (1 / ?\<epsilon>)" by (rule fl_mono)
  moreover have "fl (1 / ?\<epsilon>) = 8388607999999999 / 8388608"
    by (subst fl_eval [where e = 29]) (simp_all add: rne_def Let_def)
  ultimately have b: "fl (1 / \<mu>) \<le> 8388607999999999 / 8388608" by simp
  then have "fl (1 / \<mu>) \<le> 2 ^ 512" by (rule order_trans) simp
  then have "fl (1 / \<mu>) < overflow" by (rule below_overflow(1))
  then have "one_over m = Fin (fl (1 / \<mu>))" using pos by (simp add: Fin rnd_def)
  moreover have "0 \<le> fl (1 / \<mu>)" using pos by (intro fl_nonneg) simp
  ultimately show ?thesis using b by (simp add: fl_idem)
qed

lemma mean_pair_inverse:
  "mean [one_over (max d EPSILON), one_over (max d EPSILON)] = Some (one_over (max d EPSILON))"
proof -
  obtain r where r: "one_over (max d EPSILON) = Fin r" "fl r = r" "0 \<le> r"
      "r \<le> 8388607999999999 / 8388608"
    using inverse_cases [of "max d EPSILON"] by auto
  have "r \<le> 2 ^ 512" using r(4) by (rule order_trans) simp
  then show ?thesis using r by (simp add: mean_pair)
qed

lemma nnds_of_two: "nnds_of [p, q] = [euclidean p q, euclidean p q]"
proof -
  have "nearest_other_distance [p, q] 0 = euclidean p q"
    by (simp add: nearest_other_distance_def upt_rec)
  moreover have "nearest_other_distance [p, q] 1 = euclidean p q"
    by (simp add: nearest_other_distance_def upt_rec euclidean_sym [of q p])
  ultimately show ?thesis
    by (simp add: nnds_of_spec upt_rec)
qed

lemma two_points_metrics:
  assumes "xy_values df = Inr [p, q]"
  shows "calculate_nnd_metrics_for_cell df
           = Inr (Some (euclidean p q), Some (one_over (max (euclidean p q) EPSILON)), 2)"
  using calculate_eq [OF assms]
  by (simp add: nnds_of_two mean_pair_distance mean_pair_inverse)

lemma fadd_eval: "fl (a + b) = c \<Longrightarrow> c < overflow \<Longrightarrow> fadd (Fin a) (Fin b) = Fin c"
  by (simp add: rnd_def)


lemma one_over_eval:
  "a \<noteq> 0 \<Longrightarrow> fl (1 / a) = c \<Longrightarrow> c < overflow \<Longrightarrow> one_over (Fin a) = Fin c"
  by (simp add: rnd_def)

lemma mean3:
  "mean [a, b, c] = Some (div_count (fadd (fadd (fadd (Fin 0) a) b) c) 3)"
  by (simp add: mean_def pairwise_sum_short eval_nat_numeral)


lemma euclidean_on_axis:
  assumes "\<bar>a - b\<bar> < 2 ^ 26"
  shows "euclidean (of_int a, 0) (of_int b, 0) = Fin (of_int \<bar>a - b\<bar>)"
proof -
  let ?k = "a - b"
  have k: "\<bar>?k\<bar> < 2 ^ 53" using assms by (rule less_trans) simp
  have "\<bar>?k\<bar> * \<bar>?k\<bar> < 2 ^ 26 * 2 ^ 26"
    using assms by (intro mult_strict_mono) simp_all
  then have kk: "\<bar>?k * ?k\<bar> < 2 ^ 53" by (simp add: abs_mult)
  have t: "fl (of_int a - of_int b) = of_int ?k"
    using fl_of_int [OF k] by simp
  have "real_of_int \<bar>?k\<bar> \<le> 2 ^ 512"
  proof -
    have "real_of_int \<bar>?k\<bar> < real_of_int (2 ^ 26)" using assms by (simp only: of_int_less_iff)
    also have "\<dots> \<le> 2 ^ 512" by simp
    finally show ?thesis by simp
  qed
  then have o1: "\<bar>real_of_int ?k\<bar> < overflow" using below_overflow(1) by simp
  have "real_of_int \<bar>?k * ?k\<bar> \<le> 2 ^ 512"
  proof -
    have "real_of_int \<bar>?k * ?k\<bar> < real_of_int (2 ^ 53)" using kk by (simp only: of_int_less_iff)
    also have "\<dots> \<le> 2 ^ 512" by simp
    finally show ?thesis by simp
  qed
  then have o2: "real_of_int (?k * ?k) < overflow"
    using below_overflow(1) [of "real_of_int \<bar>?k * ?k\<bar>"] by simp
  have sq: "fl (of_int ?k * of_int ?k) = of_int (?k * ?k)"
    using fl_of_int [OF kk] by simp
  have s1: "sqdiff (of_int a) (of_int b) = Fin (of_int (?k * ?k))"
    using o1 o2 by (simp add: sqdiff_def t sq rnd_def Let_def del: of_int_diff of_int_mult)
  have s2: "sqdiff 0 0 = Fin 0" by (rule sqdiff_self)
  have a1: "fadd (Fin 0) (Fin (of_int (?k * ?k))) = Fin (of_int (?k * ?k))"
    using o2 fl_of_int [OF kk] by (simp add: rnd_def del: of_int_diff of_int_mult)
  have a2: "fadd (Fin (of_int (?k * ?k))) (Fin 0) = Fin (of_int (?k * ?k))"
    using o2 fl_of_int [OF kk] by (simp add: rnd_def del: of_int_diff of_int_mult)
  have "sqrt (real_of_int (?k * ?k)) = real_of_int \<bar>?k\<bar>"
    by (simp add: real_sqrt_mult_self del: of_int_diff)
  moreover have "fl (real_of_int \<bar>?k\<bar>) = real_of_int \<bar>?k\<bar>"
    using fl_of_int [of "\<bar>?k\<bar>"] k by simp
  moreover have "real_of_int \<bar>?k\<bar> < overflow" using o1 by simp
  ultimately have r: "fsqrt (Fin (of_int (?k * ?k))) = Fin (of_int \<bar>?k\<bar>)"
    by (simp add: rnd_def del: of_int_diff of_int_mult of_int_abs)
  show ?thesis
    unfolding euclidean_def fst_conv snd_conv s1 s2 a1 a2 r ..
qed

lemma fsqrt_eval:
  "sqrt a = c \<Longrightarrow> fl c = c' \<Longrightarrow> c' < overflow \<Longrightarrow> fsqrt (Fin a) = Fin c'"
  by (simp add: rnd_def)

lemma small_distance: "euclidean (0, 0) (1 / 2147483648, 0) = Fin (1 / 2147483648)"
proof -
  have t: "fl (0 - 1 / 2147483648) = - (1 / 2147483648)"
    using fl_dyadic [of "- 1" "- 31"] by (simp add: power_int_minus)
  have q: "fl (- (1 / 2147483648) * - (1 / 2147483648)) = 1 / 4611686018427387904"
    using fl_dyadic [of 1 "- 62"] by (simp add: power_int_minus)
  have s1: "sqdiff 0 (1 / 2147483648) = Fin (1 / 4611686018427387904)"
    unfolding sqdiff_def Let_def t rnd_def q by (simp add: overflow_def)
  have a1: "fadd (Fin 0) (Fin (1 / 4611686018427387904)) = Fin (1 / 4611686018427387904)"
    by (rule fadd_eval) (use fl_dyadic [of 1 "- 62"] in \<open>simp_all add: power_int_minus overflow_def\<close>)
  have a2: "fadd (Fin (1 / 4611686018427387904)) (Fin 0) = Fin (1 / 4611686018427387904)"
    by (rule fadd_eval) (use fl_dyadic [of 1 "- 62"] in \<open>simp_all add: power_int_minus overflow_def\<close>)
  have "(1 / 4611686018427387904 :: real) = (1 / 2147483648)\<^sup>2"
    by (simp add: power2_eq_square)
  then have sq: "sqrt (1 / 4611686018427387904) = \<bar>1 / 2147483648\<bar>"
    by (simp only: real_sqrt_abs)
  have f: "fl \<bar>1 / 2147483648\<bar> = 1 / 2147483648"
    using fl_dyadic [of 1 "- 31"] by (simp add: power_int_minus)
  have r: "fsqrt (Fin (1 / 4611686018427387904)) = Fin (1 / 2147483648)"
    by (rule fsqrt_eval [OF sq f]) (simp add: overflow_def)
  show ?thesis
    unfolding euclidean_def fst_conv snd_conv s1 sqdiff_self a1 a2 r ..
qed

lemma fl_three_quarters: "fl (3 / 4) = 3 / 4"
  using fl_dyadic [of 3 "- 2"] by (simp add: power_int_minus)

lemma exact_distance_on_axis: "exact_distance (a, y) (b, y) = \<bar>a - b\<bar>"
  by (simp add: exact_distance_def)

lemma overflow_distance: "euclidean (0, 0) (2 ^ 600, 0) = PInf"
proof -
  have t: "fl (0 - 2 ^ 600) = - (2 ^ 600)"
    using fl_dyadic [of "- 1" 600] by (simp add: power_int_def)
  have q: "fl (- (2 ^ 600) * - (2 ^ 600)) = 2 ^ 1200"
    using fl_dyadic [of 1 1200] by (simp add: power_int_def)
  have s1: "sqdiff 0 (2 ^ 600) = PInf"
    unfolding sqdiff_def Let_def t rnd_def q by (simp add: overflow_def)
  show ?thesis
    unfolding euclidean_def fst_conv snd_conv s1 by simp
qed

lemma spec_two_on_axis:
  "spec_avgNND [(0, 0), (b, 0)] = \<bar>b\<bar>"
  "spec_avgInverseNND [(0, 0), (b, 0)] = 1 / max \<bar>b\<bar> (1 / 1000000000)"
proof -
  have u: "[0..<length [(0, 0), (b, 0) :: point]] = [0, 1]" by (simp add: upt_rec)
  have e: "exact_nearest_other [(0, 0), (b, 0)] 0 = \<bar>b\<bar>"
    "exact_nearest_other [(0, 0), (b, 0)] (Suc 0) = \<bar>b\<bar>"
    unfolding exact_nearest_other_def by (simp_all add: upt_rec exact_distance_on_axis)
  show "spec_avgNND [(0, 0), (b, 0)] = \<bar>b\<bar>"
    unfolding spec_avgNND_def u by (simp add: e)
  show "spec_avgInverseNND [(0, 0), (b, 0)] = 1 / max \<bar>b\<bar> (1 / 1000000000)"
    unfolding spec_avgInverseNND_def u by (simp add: e)
qed

subsection \<open>Permuting the points\<close>








subsection \<open>The claims on the calculator\<close>

text \<open>
  C1, as the program has it. For a frame holding the points \<open>pts\<close>, at least two of them,
  the program returns the float64 mean, as \<^verbatim>\<open>np.mean\<close> computes it, of the distances
  from each point to its nearest other point, as the library computes them in float64
  (\<open>+inf\<close> when a squared difference overflows), the float64 mean of
  \<open>1.0 / max d\<^sub>i EPSILON\<close>, and the number of points. The program takes the second of
  the two smallest distances from a point to all points, itself included; that is the
  least distance to the other points. The values are not the means over the real
  numbers: they round, and they overflow.
\<close>

theorem averages_match_library:
  assumes "xy_values df = Inr pts" and "2 \<le> length pts"
  shows "calculate_nnd_metrics_for_cell df
           = Inr (mean (map (nearest_other_distance pts) [0..<length pts]),
                  mean (map (\<lambda>i. one_over (max (nearest_other_distance pts i) EPSILON))
                            [0..<length pts]),
                  length pts)"
  using calculate_eq [OF assms] assms(2) by (simp add: nnds_of_spec o_def)

theorem averages_match_library_witness:
  "calculate_nnd_metrics_for_cell (frame_of_points [(0, 0), (4, 0), (8, 0)])
     = Inr (Some (Fin 4), Some (Fin (1 / 4)), 3)"
proof -
  have d: "euclidean (0, 0) (4, 0) = Fin 4" "euclidean (0, 0) (8, 0) = Fin 8"
    "euclidean (4, 0) (0, 0) = Fin 4" "euclidean (4, 0) (8, 0) = Fin 4"
    "euclidean (8, 0) (0, 0) = Fin 8" "euclidean (8, 0) (4, 0) = Fin 4"
    using euclidean_on_axis [of 0 4] euclidean_on_axis [of 0 8] euclidean_on_axis [of 4 0]
      euclidean_on_axis [of 4 8] euclidean_on_axis [of 8 0] euclidean_on_axis [of 8 4]
    by simp_all
  have k: "nearest_other_distance [(0, 0), (4, 0), (8, 0)] 0 = Fin 4"
    "nearest_other_distance [(0, 0), (4, 0), (8, 0)] (Suc 0) = Fin 4"
    "nearest_other_distance [(0, 0), (4, 0), (8, 0)] 2 = Fin 4"
    unfolding nearest_other_distance_def by (simp_all add: upt_rec d)
  have i: "one_over (max (Fin 4) EPSILON) = Fin (1 / 4)"
    by (simp add: EPSILON_value max_def fl_quarter rnd_def overflow_def)
  have u: "[0..<3] = [0, 1, 2]" by (simp add: upt_rec)
  have n: "map (nearest_other_distance [(0, 0), (4, 0), (8, 0)]) [0..<3] = [Fin 4, Fin 4, Fin 4]"
    unfolding u by (simp add: k)
  have n2: "map (\<lambda>i. one_over (max (nearest_other_distance [(0, 0), (4, 0), (8, 0)] i) EPSILON))
              [0..<3] = [Fin (1 / 4), Fin (1 / 4), Fin (1 / 4)]"
    unfolding u by (simp add: k i del: one_over.simps)
  have m1: "mean [Fin 4, Fin 4, Fin 4] = Some (Fin 4)"
    by (simp add: mean3 rnd_def fl_numeral overflow_def)
  have m2: "mean [Fin (1 / 4), Fin (1 / 4), Fin (1 / 4)] = Some (Fin (1 / 4))"
    by (simp add: mean3 rnd_def fl_quarter fl_half fl_three_quarters overflow_def)
  have l: "length [(0, 0), (4, 0), (8, 0) :: point] = 3" by simp
  show ?thesis
    using averages_match_library [where df = "frame_of_points [(0, 0), (4, 0), (8, 0)]"
        and pts = "[(0, 0), (4, 0), (8, 0)]"]
    unfolding l n n2 by (simp add: xy_values_frame_of_points m1 m2)
qed

theorem averages_overflow_counterexample:
  "calculate_nnd_metrics_for_cell (frame_of_points [(0, 0), (2 ^ 600, 0)])
     = Inr (Some PInf, Some (Fin 0), 2) \<and>
   spec_avgNND [(0, 0), (2 ^ 600, 0)] = 2 ^ 600 \<and>
   spec_avgInverseNND [(0, 0), (2 ^ 600, 0)] = 1 / 2 ^ 600"
proof -
  have "calculate_nnd_metrics_for_cell (frame_of_points [(0, 0), (2 ^ 600, 0)])
     = Inr (Some PInf, Some (Fin 0), 2)"
    using two_points_metrics [OF xy_values_frame_of_points, of "(0, 0)" "(2 ^ 600, 0)"]
    unfolding overflow_distance by (simp add: max_def)
  then show ?thesis
    by (simp add: spec_two_on_axis max_def)
qed

text \<open>
  C2. A frame with no point gives (NaN, NaN, 0) and a frame with one point gives
  (NaN, NaN, 1), whatever the neighbour search is or would do: the search is not run,
  and nothing is raised.
\<close>

theorem degenerate_counts:
  "xy_values df = Inr pts \<Longrightarrow>
     (length pts = 0 \<longrightarrow>
        calculate_nnd_metrics_for_cell_with knn df = Inr (None, None, 0)) \<and>
     (length pts = 1 \<longrightarrow>
        calculate_nnd_metrics_for_cell_with knn df = Inr (None, None, 1))"
  by (simp add: calculate_nnd_metrics_for_cell_with_def nnd_metrics_def)

theorem degenerate_counts_witness:
  "calculate_nnd_metrics_for_cell_with (\<lambda>c. Inl OtherException) (frame_of_points [])
     = Inr (None, None, 0)
   \<and> calculate_nnd_metrics_for_cell_with (\<lambda>c. Inl OtherException) (frame_of_points [(3, 5)])
     = Inr (None, None, 1)"
  using degenerate_counts [OF xy_values_frame_of_points, of "[]" "\<lambda>c. Inl OtherException"]
    degenerate_counts [OF xy_values_frame_of_points, of "[(3, 5)]" "\<lambda>c. Inl OtherException"]
  by simp

text \<open>
  C3. On a frame that has the two coordinate columns the function raises nothing,
  whatever the neighbour search does, and always reports the number of points; when the
  search raises, both metrics are NaN.
\<close>

theorem never_raises:
  assumes "xy_values df = Inr pts"
  shows "(\<exists>a b. calculate_nnd_metrics_for_cell_with knn df = Inr (a, b, length pts)) \<and>
         (\<forall>e. knn pts = Inl e \<longrightarrow>
            calculate_nnd_metrics_for_cell_with knn df = Inr (None, None, length pts))"
  using assms nnd_metrics_count [of knn pts]
  by (auto simp: calculate_nnd_metrics_for_cell_with_def nnd_metrics_search_fails)

theorem never_raises_witness:
  "calculate_nnd_metrics_for_cell_with (\<lambda>c. Inl ValueError) (frame_of_points [(0, 0), (3, 4)])
     = Inr (None, None, 2)"
  using never_raises [where df = "frame_of_points [(0, 0), (3, 4)]" and pts = "[(0, 0), (3, 4)]"
      and knn = "\<lambda>c. Inl ValueError"]
  by (simp add: xy_values_frame_of_points)

text \<open>
  C4, as the program has it. For two points at the float64 distance \<open>d\<close> the average
  distance is \<open>d\<close>; the average inverse is the float64 quotient \<open>1.0 / d\<close> when \<open>d\<close> is
  at least \<open>EPSILON\<close>, and the clamped \<open>1.0 / EPSILON\<close> below it.
\<close>

theorem two_points_at_distance:
  assumes "xy_values df = Inr [p, q]"
  shows "calculate_nnd_metrics_for_cell df
           = Inr (Some (euclidean p q),
                  Some (if EPSILON \<le> euclidean p q then one_over (euclidean p q)
                        else one_over EPSILON),
                  2)"
  using two_points_metrics [OF assms] by (auto simp: max_def)

theorem two_points_at_distance_witness:
  "calculate_nnd_metrics_for_cell (frame_of_points [(0, 0), (4, 0)])
     = Inr (Some (Fin 4), Some (Fin (1 / 4)), 2)"
proof -
  have d: "euclidean (0, 0) (4, 0) = Fin 4"
    using euclidean_on_axis [of 0 4] by simp
  have i: "one_over (Fin 4) = Fin (1 / 4)"
    by (rule one_over_eval) (simp_all add: fl_quarter overflow_def)
  show ?thesis
    using two_points_at_distance [where df = "frame_of_points [(0, 0), (4, 0)]"
        and p = "(0, 0)" and q = "(4, 0)"]
    by (simp add: xy_values_frame_of_points d i EPSILON_value del: one_over.simps)
qed

theorem two_points_below_epsilon_counterexample:
  "euclidean (0, 0) (1 / 2147483648, 0) = Fin (1 / 2147483648) \<and>
   calculate_nnd_metrics_for_cell (frame_of_points [(0, 0), (1 / 2147483648, 0)])
     = Inr (Some (Fin (1 / 2147483648)), Some (Fin (8388607999999999 / 8388608)), 2) \<and>
   Fin (8388607999999999 / 8388608) \<noteq> Fin (1 / (1 / 2147483648))"
proof -
  have m: "max (Fin (1 / 2147483648)) EPSILON = EPSILON"
    by (simp add: EPSILON_value max_def)
  show ?thesis
    using two_points_metrics [OF xy_values_frame_of_points, of "(0, 0)" "(1 / 2147483648, 0)"]
    by (simp add: small_distance m one_over_EPSILON)
qed

text \<open>
  C5, as the program has it. For two points at float64 distance 0, coincident ones among
  them, the average distance is 0 and the average inverse distance is the float64
  quotient \<open>1.0 / EPSILON\<close>: a number, not NaN, which is \<open>8388607999999999 / 2\<^sup>2\<^sup>3\<close>,
  the float64 next below \<open>10\<^sup>9\<close>, and not \<open>10\<^sup>9\<close>.
\<close>

theorem coincident_points:
  assumes "xy_values df = Inr [p, q]" and "euclidean p q = Fin 0"
  shows "calculate_nnd_metrics_for_cell df = Inr (Some (Fin 0), Some (one_over EPSILON), 2) \<and>
         one_over EPSILON = Fin (8388607999999999 / 8388608) \<and>
         Fin (8388607999999999 / 8388608) < Fin 1000000000"
  using two_points_metrics [OF assms(1)] assms(2) EPSILON_pos
  by (simp add: max_def one_over_EPSILON)

theorem coincident_points_witness:
  "calculate_nnd_metrics_for_cell (frame_of_points [(7, 2), (7, 2)])
     = Inr (Some (Fin 0), Some (Fin (8388607999999999 / 8388608)), 2)"
  using coincident_points [where df = "frame_of_points [(7, 2), (7, 2)]"
      and p = "(7, 2)" and q = "(7, 2)"]
  by (simp add: xy_values_frame_of_points euclidean_self)

theorem coincident_points_counterexample:
  "calculate_nnd_metrics_for_cell (frame_of_points [(0, 0), (0, 0)])
     = Inr (Some (Fin 0), Some (Fin (8388607999999999 / 8388608)), 2) \<and>
   Fin (8388607999999999 / 8388608) \<noteq> Fin 1000000000"
  using two_points_metrics [OF xy_values_frame_of_points, of "(0, 0)" "(0, 0)"] EPSILON_pos
  by (simp add: euclidean_self max_def one_over_EPSILON)





section \<open>Properties of the per-file loop\<close>

subsection \<open>The loop adds each file's contribution to the state\<close>

lemma process_file_from_state:
  "process_file knn f (rs, c)
     = (rs @ fst (process_file knn f ([], 0)), c + snd (process_file knn f ([], 0)))"
  by (simp add: process_file_def split: sum.splits option.splits exn.splits)

lemma process_files_from_state:
  "process_files_from knn fs st
     = (fst st @ fst (process_files knn fs), snd st + snd (process_files knn fs))"
proof (induction fs arbitrary: st)
  case Nil
  then show ?case by (simp add: process_files_def)
next
  case (Cons f fs)
  obtain rs c where st: "st = (rs, c)" by (cases st)
  have "process_files_from knn (f # fs) st
          = process_files_from knn fs (process_file knn f (rs, c))"
    by (simp add: st)
  also have "\<dots> = (fst (process_file knn f (rs, c)) @ fst (process_files knn fs),
                    snd (process_file knn f (rs, c)) + snd (process_files knn fs))"
    by (rule Cons.IH)
  also have "\<dots> = (rs @ fst (process_file knn f ([], 0)) @ fst (process_files knn fs),
                    c + snd (process_file knn f ([], 0)) + snd (process_files knn fs))"
    by (subst (1 2) process_file_from_state) simp
  also have "\<dots> = (fst st @ fst (process_files knn (f # fs)),
                    snd st + snd (process_files knn (f # fs)))"
    by (simp add: st process_files_def Cons.IH [of "process_file knn f ([], 0)"])
  finally show ?case .
qed

lemma process_files_Cons:
  "process_files knn (f # fs)
     = (fst (process_file knn f ([], 0)) @ fst (process_files knn fs),
        snd (process_file knn f ([], 0)) + snd (process_files knn fs))"
  by (simp add: process_files_def process_files_from_state [of knn fs "process_file knn f ([], 0)"])

lemma process_files_append:
  "process_files knn (xs @ ys)
     = (fst (process_files knn xs) @ fst (process_files knn ys),
        snd (process_files knn xs) + snd (process_files knn ys))"
proof (induction xs)
  case Nil
  then show ?case by (simp add: process_files_def)
next
  case (Cons x xs)
  then show ?case by (simp add: process_files_Cons)
qed

lemma process_file_skipped:
  assumes "startswith (file_name f) ''NND_Summary_Results_''"
  shows "process_file knn f st = st"
  using assms by (cases st) (simp add: process_file_def)

lemma process_file_raises:
  assumes "\<not> startswith (file_name f) ''NND_Summary_Results_''"
    and "process_try_body knn f = Inl e"
  shows "process_file knn f ([], 0)
           = ([if e = EmptyDataError then empty_file_row (file_stem f)
               else processing_error_row (file_stem f)], 0)"
  using assms by (cases e) (simp_all add: process_file_def)

lemma zero_point_unit_row:
  assumes "\<not> startswith (file_name g) ''NND_Summary_Results_''"
    and "file_read g = Frame df" and "xy_values df = Inr []"
  shows "process_file knn g ([], 0)
           = ([\<lparr>Identifier = file_stem g, Label = ''N/A'',
                Avg_NND = None, Avg_Inverse_NND = None, NumFoci = 0\<rparr>], 1)"
  using assms
  by (auto simp: process_file_def process_try_body_def xy_values_def label_value_def
      df_empty_def split: if_splits)

subsection \<open>The claims on the loop\<close>

text \<open>
  C8, as the program has it. A file that is not a previous summary and whose processing
  raises gets one row and is not counted as processed, and the files before and after
  it contribute what they contribute without it: the batch goes on. The row has
  \<open>NumFoci = -1\<close> and the label \<open>Processing Error\<close> for every exception but pandas'
  EmptyDataError, which has a handler of its own: its row has \<open>NumFoci = 0\<close> and the label
  \<open>Empty File\<close>.
\<close>

theorem unit_fault_row:
  assumes "\<not> startswith (file_name f) ''NND_Summary_Results_''"
    and "process_try_body knn f = Inl e"
  shows "process_files knn (before @ f # after)
           = (fst (process_files knn before)
                @ [if e = EmptyDataError then empty_file_row (file_stem f)
                   else processing_error_row (file_stem f)]
                @ fst (process_files knn after),
              snd (process_files knn before) + snd (process_files knn after)) \<and>
         NumFoci (processing_error_row (file_stem f)) = - 1 \<and>
         NumFoci (empty_file_row (file_stem f)) = 0"
  by (simp add: process_files_append process_files_Cons process_file_raises [OF assms]
      processing_error_row_def empty_file_row_def)

theorem unit_fault_row_witness:
  "process_files NearestNeighbors_kneighbors
     ([\<lparr>file_name = ''a.csv'', file_stem = ''a'',
         file_read = Frame (frame_of_points [])\<rparr>]
      @ \<lparr>file_name = ''bad.csv'', file_stem = ''bad'', file_read = Raises OtherException\<rparr>
      # [\<lparr>file_name = ''cell.csv'', file_stem = ''cell'',
           file_read = Frame (frame_of_points [(0, 0), (0, 4)])\<rparr>])
   = ([\<lparr>Identifier = ''a'', Label = ''N/A'',
        Avg_NND = None, Avg_Inverse_NND = None, NumFoci = 0\<rparr>,
       \<lparr>Identifier = ''bad'', Label = ''Processing Error'',
        Avg_NND = None, Avg_Inverse_NND = None, NumFoci = - 1\<rparr>,
       \<lparr>Identifier = ''cell'', Label = ''N/A'',
        Avg_NND = Some (Fin 4), Avg_Inverse_NND = Some (Fin (1 / 4)), NumFoci = 2\<rparr>], 2)"
proof -
  let ?a = "\<lparr>file_name = ''a.csv'', file_stem = ''a'', file_read = Frame (frame_of_points [])\<rparr>"
  let ?bad = "\<lparr>file_name = ''bad.csv'', file_stem = ''bad'', file_read = Raises OtherException\<rparr>"
  let ?cell = "\<lparr>file_name = ''cell.csv'', file_stem = ''cell'',
                 file_read = Frame (frame_of_points [(0, 0), (0, 4)])\<rparr>"
  have name: "\<not> startswith (file_name ?bad) ''NND_Summary_Results_''"
    by (simp add: startswith_def)
  have raises: "process_try_body NearestNeighbors_kneighbors ?bad = Inl OtherException"
    by (simp add: process_try_body_def)
  have a: "process_files NearestNeighbors_kneighbors [?a]
             = ([\<lparr>Identifier = ''a'', Label = ''N/A'',
                  Avg_NND = None, Avg_Inverse_NND = None, NumFoci = 0\<rparr>], 1)"
    by (simp add: process_files_def process_file_def startswith_def process_try_body_def
        frame_of_points_def label_value_def df_empty_def X_COL_def Y_COL_def LABEL_COL_INPUT_def)
  have m: "calculate_nnd_metrics_for_cell_with NearestNeighbors_kneighbors
             (frame_of_points [(0, 0), (0, 4)]) = Inr (Some (Fin 4), Some (Fin (1 / 4)), 2)"
    using two_points_four by (simp add: calculate_nnd_metrics_for_cell_def)
  have cell: "process_files NearestNeighbors_kneighbors [?cell]
             = ([\<lparr>Identifier = ''cell'', Label = ''N/A'',
                  Avg_NND = Some (Fin 4), Avg_Inverse_NND = Some (Fin (1 / 4)), NumFoci = 2\<rparr>], 1)"
    by (simp add: process_files_def process_file_def startswith_def process_try_body_def m)
       (simp add: frame_of_points_def label_value_def df_empty_def X_COL_def Y_COL_def
        LABEL_COL_INPUT_def)
  show ?thesis
    using unit_fault_row [OF name raises, of "[?a]" "[?cell]"]
    by (simp add: a cell processing_error_row_def)
qed

theorem empty_file_counterexample:
  "process_try_body NearestNeighbors_kneighbors
     \<lparr>file_name = ''empty.csv'', file_stem = ''empty'', file_read = Raises EmptyDataError\<rparr>
     = Inl EmptyDataError \<and>
   process_files NearestNeighbors_kneighbors
     [\<lparr>file_name = ''empty.csv'', file_stem = ''empty'', file_read = Raises EmptyDataError\<rparr>]
     = ([\<lparr>Identifier = ''empty'', Label = ''Empty File'',
          Avg_NND = None, Avg_Inverse_NND = None, NumFoci = 0\<rparr>], 0)"
  by (simp add: process_files_def process_file_def startswith_def process_try_body_def
      empty_file_row_def)

text \<open>
  C10. The name of a summary file starts with \<open>NND_Summary_Results_\<close>, whatever the
  timestamp, and a file whose name starts so is skipped: the rows and the count of
  processed files are those of the folder without it.
\<close>

theorem previous_output_skipped:
  "startswith (output_filename timestamp) ''NND_Summary_Results_'' \<and>
   (startswith (file_name f) ''NND_Summary_Results_'' \<longrightarrow>
      process_files knn (before @ f # after) = process_files knn (before @ after))"
  by (simp add: startswith_def output_filename_def process_files_append process_files_Cons
      process_file_skipped)


theorem previous_output_skipped_witness:
  "process_files NearestNeighbors_kneighbors
     ([\<lparr>file_name = ''a.csv'', file_stem = ''a'', file_read = Frame (frame_of_points [])\<rparr>]
      @ \<lparr>file_name = output_filename ''20250417_101500'',
          file_stem = ''NND_Summary_Results_20250417_101500'',
          file_read = Frame (frame_of_points [(0, 0), (0, 4)])\<rparr>
      # [])
   = ([\<lparr>Identifier = ''a'', Label = ''N/A'',
        Avg_NND = None, Avg_Inverse_NND = None, NumFoci = 0\<rparr>], 1)"
proof -
  let ?a = "\<lparr>file_name = ''a.csv'', file_stem = ''a'', file_read = Frame (frame_of_points [])\<rparr>"
  have a: "process_files NearestNeighbors_kneighbors [?a]
             = ([\<lparr>Identifier = ''a'', Label = ''N/A'',
                  Avg_NND = None, Avg_Inverse_NND = None, NumFoci = 0\<rparr>], 1)"
    by (simp add: process_files_def process_file_def startswith_def process_try_body_def
        frame_of_points_def label_value_def df_empty_def X_COL_def Y_COL_def LABEL_COL_INPUT_def)
  show ?thesis
    using previous_output_skipped [of "''20250417_101500''"
        "\<lparr>file_name = output_filename ''20250417_101500'',
          file_stem = ''NND_Summary_Results_20250417_101500'',
          file_read = Frame (frame_of_points [(0, 0), (0, 4)])\<rparr>"
        NearestNeighbors_kneighbors "[?a]" "[]"]
    by (simp add: a)
qed

end
